theory Spec2Isabelle
  imports Complex_Main "HOL-Library.Word" "HOL-Library.Multiset" "HOL-Library.Sublist"
begin

section \<open>Machine model\<close>

text \<open>
  CSearch.c works on raw pointers.  The process memory is a total map from 64-bit
  addresses to bytes: the C code performs no bounds check, so a read at any computed
  address yields whatever byte is stored there.  \<open>size_t\<close> is \<open>64 word\<close>,
  \<open>uint32_t\<close>/\<open>int32_t\<close> are \<open>32 word\<close> (read with \<open>unat\<close> / \<open>sint\<close>),
  pointer arithmetic wraps modulo \<open>2^64\<close>.  Multi-byte fields are little-endian.
\<close>

type_synonym u8 = "8 word"
type_synonym u32 = "32 word"
type_synonym i32 = "32 word"
type_synonym u64 = "64 word"
type_synonym size_t = "64 word"
type_synonym memory = "64 word \<Rightarrow> 8 word"

text \<open>\<^verbatim>\<open>*(const uint32_t*)(p)\<close>\<close>

definition read_u32 :: "memory \<Rightarrow> size_t \<Rightarrow> u32" where
  "read_u32 mem p =
     ucast (mem p) + 256 * ucast (mem (p + 1)) + 65536 * ucast (mem (p + 2))
       + 16777216 * ucast (mem (p + 3))"

text \<open>\<^verbatim>\<open>*(const int64_t*)(p)\<close> and \<^verbatim>\<open>*(const double*)(p)\<close>: the eight raw bytes.\<close>

definition read_u64 :: "memory \<Rightarrow> size_t \<Rightarrow> u64" where
  "read_u64 mem p =
     ucast (mem p) + 256 * ucast (mem (p + 1)) + 65536 * ucast (mem (p + 2))
       + 16777216 * ucast (mem (p + 3)) + 4294967296 * ucast (mem (p + 4))
       + 1099511627776 * ucast (mem (p + 5)) + 281474976710656 * ucast (mem (p + 6))
       + 72057594037927936 * ucast (mem (p + 7))"

text \<open>The \<open>n\<close> bytes starting at address \<open>p\<close>: what \<open>memmem\<close> and \<open>memcmp\<close> are handed.\<close>

definition read_bytes :: "memory \<Rightarrow> size_t \<Rightarrow> nat \<Rightarrow> u8 list" where
  "read_bytes mem p n = map (\<lambda>k. mem (p + of_nat k)) [0..<n]"

section \<open>Library functions used by CSearch.c\<close>

text \<open>
  Modelled from the spec: \<open>memmem\<close> is a C library function, its code is not part of
  the repository.  The spec describes the test as ``the query sequence occurs as a
  contiguous subsequence'', with ``containment of the empty string universally true''.
  The model returns the offset of the first occurrence of the needle in the haystack
  (\<open>None\<close> is the NULL result).
\<close>

fun memmem :: "u8 list \<Rightarrow> u8 list \<Rightarrow> nat option" where
  "memmem [] needle = (if needle = [] then Some 0 else None)"
| "memmem (h # hs) needle =
     (if take (length needle) (h # hs) = needle then Some 0
      else map_option Suc (memmem hs needle))"

text \<open>
  \<open>memcmp\<close> of the C library on two regions of the same length: zero when the regions
  are equal, otherwise the difference of the first pair of differing bytes, both read
  as \<open>unsigned char\<close>.
\<close>

fun memcmp :: "u8 list \<Rightarrow> u8 list \<Rightarrow> int" where
  "memcmp (a # as) (b # bs) = (if a = b then memcmp as bs else int (unat a) - int (unat b))"
| "memcmp _ _ = 0"

section \<open>perform_search_scan\<close>

text \<open>
  The output region \<open>results_buffer\<close> is a map from slot index (the \<open>int32_t\<close>
  \<open>match_count\<close>) to the \<open>int32_t\<close> stored there, so that every write of the loop is
  visible, wherever it lands.  The query \<open>(query_ptr, query_len)\<close> is a byte list.
\<close>

function scan_loop ::
  "memory \<Rightarrow> size_t \<Rightarrow> size_t \<Rightarrow> size_t \<Rightarrow> size_t \<Rightarrow> size_t \<Rightarrow> u8 list
     \<Rightarrow> i32 \<Rightarrow> (i32 \<Rightarrow> i32) \<Rightarrow> i32 \<times> (i32 \<Rightarrow> i32)" where
  "scan_loop mem data_ptr items_start item_record_size i end_index query match_count results_buffer =
     (if i < end_index then
        (let offset = i * item_record_size;
             item_ptr = items_start + offset;
             lower_name_offset = read_u32 mem (item_ptr + 36);
             lower_name_len = read_u32 mem (item_ptr + 40);
             name_ptr = data_ptr + ucast lower_name_offset
         in if memmem (read_bytes mem name_ptr (unat lower_name_len)) query \<noteq> None
            then scan_loop mem data_ptr items_start item_record_size (i + 1) end_index query
                   (match_count + 1) (results_buffer(match_count := ucast i))
            else scan_loop mem data_ptr items_start item_record_size (i + 1) end_index query
                   match_count results_buffer)
      else (match_count, results_buffer))"
  by pat_completeness auto
termination
proof (relation "measure (\<lambda>(mem, dp, its, sz, i, e, q, mc, rb). unat e - unat i)")
  show "wf (measure (\<lambda>(mem, dp, its, sz, i, e, q, mc, rb). unat e - unat i))"
    by simp
next
  fix mem :: memory and data_ptr items_start item_record_size i end_index :: size_t
    and query :: "u8 list" and match_count :: i32 and results_buffer :: "i32 \<Rightarrow> i32"
    and x xa xb xc xd
  assume "i < end_index"
  then have "i + 1 \<noteq> 0"
    by (metis word_not_simps(3) max_word_wrap)
  then have "unat (i + 1) = Suc (unat i)"
    using unatSuc [of i] by (simp add: add.commute)
  moreover from \<open>i < end_index\<close> have "unat i < unat end_index"
    by (simp add: word_less_nat_alt)
  ultimately show "((mem, data_ptr, items_start, item_record_size, i + 1, end_index, query,
      match_count + 1, results_buffer(match_count := ucast i)),
     (mem, data_ptr, items_start, item_record_size, i, end_index, query, match_count,
      results_buffer)) \<in> measure (\<lambda>(mem, dp, its, sz, i, e, q, mc, rb). unat e - unat i)"
    and "((mem, data_ptr, items_start, item_record_size, i + 1, end_index, query,
      match_count, results_buffer),
     (mem, data_ptr, items_start, item_record_size, i, end_index, query, match_count,
      results_buffer)) \<in> measure (\<lambda>(mem, dp, its, sz, i, e, q, mc, rb). unat e - unat i)"
    by simp_all
qed

declare scan_loop.simps [simp del]

definition perform_search_scan ::
  "memory \<Rightarrow> size_t \<Rightarrow> size_t \<Rightarrow> size_t \<Rightarrow> size_t \<Rightarrow> size_t \<Rightarrow> u8 list
     \<Rightarrow> (i32 \<Rightarrow> i32) \<Rightarrow> i32 \<times> (i32 \<Rightarrow> i32)" where
  "perform_search_scan mem data_ptr item_base_offset item_record_size start_index end_index
       query results_buffer =
     (let match_count = 0;
          items_start = data_ptr + item_base_offset
      in scan_loop mem data_ptr items_start item_record_size start_index end_index query
           match_count results_buffer)"

section \<open>perform_path_lookup\<close>

text \<open>
  The target \<open>(target_path, target_len)\<close> is a byte list, \<open>target_len\<close> its length.
  The parameter \<open>count\<close> is written \<open>count'\<close>.  The result is the \<open>int32_t\<close> return value.
\<close>

function lookup_loop ::
  "memory \<Rightarrow> size_t \<Rightarrow> size_t \<Rightarrow> size_t \<Rightarrow> size_t \<Rightarrow> size_t \<Rightarrow> u8 list \<Rightarrow> i32" where
  "lookup_loop mem data_ptr items_start item_record_size i count' target_path =
     (if i < count' then
        (let offset = i * item_record_size;
             item_ptr = items_start + offset;
             path_offset = read_u32 mem (item_ptr + 28);
             path_len = read_u32 mem (item_ptr + 32)
         in if unat path_len \<noteq> length target_path
            then lookup_loop mem data_ptr items_start item_record_size (i + 1) count' target_path
            else (let path_ptr = data_ptr + ucast path_offset
                  in if memcmp (read_bytes mem path_ptr (length target_path)) target_path = 0
                     then ucast i
                     else lookup_loop mem data_ptr items_start item_record_size (i + 1) count'
                            target_path))
      else - 1)"
  by pat_completeness auto
termination
proof (relation "measure (\<lambda>(mem, dp, its, sz, i, c, t). unat c - unat i)")
  show "wf (measure (\<lambda>(mem, dp, its, sz, i, c, t). unat c - unat i))"
    by simp
next
  fix mem :: memory and data_ptr items_start item_record_size i count' :: size_t
    and target_path :: "u8 list" and x xa xb xc xd
  assume "i < count'"
  then have "i + 1 \<noteq> 0"
    by (metis word_not_simps(3) max_word_wrap)
  then have "unat (i + 1) = Suc (unat i)"
    using unatSuc [of i] by (simp add: add.commute)
  moreover from \<open>i < count'\<close> have "unat i < unat count'"
    by (simp add: word_less_nat_alt)
  ultimately show "((mem, data_ptr, items_start, item_record_size, i + 1, count', target_path),
     (mem, data_ptr, items_start, item_record_size, i, count', target_path))
       \<in> measure (\<lambda>(mem, dp, its, sz, i, c, t). unat c - unat i)"
    and "((mem, data_ptr, items_start, item_record_size, i + 1, count', target_path),
     (mem, data_ptr, items_start, item_record_size, i, count', target_path))
       \<in> measure (\<lambda>(mem, dp, its, sz, i, c, t). unat c - unat i)"
    by simp_all
qed

declare lookup_loop.simps [simp del]

definition perform_path_lookup ::
  "memory \<Rightarrow> size_t \<Rightarrow> size_t \<Rightarrow> size_t \<Rightarrow> size_t \<Rightarrow> u8 list \<Rightarrow> i32" where
  "perform_path_lookup mem data_ptr item_base_offset item_record_size count' target_path =
     (let items_start = data_ptr + item_base_offset
      in lookup_loop mem data_ptr items_start item_record_size 0 count' target_path)"

section \<open>perform_index_sort\<close>

text \<open>
  A \<open>double\<close> is kept as its 64 raw bits.  Comparison of doubles follows IEEE 754
  binary64: bit 63 is the sign, bits 62..52 the biased exponent, bits 51..0 the
  fraction; exponent 2047 with a non-zero fraction is a NaN, and every comparison
  involving a NaN is false.  Comparison involves no rounding, so the numeric value is
  exact.
\<close>

datatype dval = NegInf | Fin real | PosInf

fun dval_less :: "dval \<Rightarrow> dval \<Rightarrow> bool" where
  "dval_less NegInf NegInf = False"
| "dval_less NegInf _ = True"
| "dval_less (Fin x) NegInf = False"
| "dval_less (Fin x) (Fin y) = (x < y)"
| "dval_less (Fin x) PosInf = True"
| "dval_less PosInf _ = False"

definition double_sign :: "u64 \<Rightarrow> bool" where
  "double_sign w = (2 ^ 63 \<le> unat w)"

definition double_exponent :: "u64 \<Rightarrow> nat" where
  "double_exponent w = (unat w div 2 ^ 52) mod 2048"

definition double_fraction :: "u64 \<Rightarrow> nat" where
  "double_fraction w = unat w mod 2 ^ 52"

definition double_is_nan :: "u64 \<Rightarrow> bool" where
  "double_is_nan w = (double_exponent w = 2047 \<and> double_fraction w \<noteq> 0)"

definition double_magnitude :: "u64 \<Rightarrow> real" where
  "double_magnitude w =
     (let e = double_exponent w; f = double_fraction w
      in if e = 0 then real f / 2 ^ 1074
         else if 1075 \<le> e then real (2 ^ 52 + f) * 2 ^ (e - 1075)
         else real (2 ^ 52 + f) / 2 ^ (1075 - e))"

definition double_value :: "u64 \<Rightarrow> dval" where
  "double_value w =
     (if double_exponent w = 2047 then (if double_sign w then NegInf else PosInf)
      else Fin (if double_sign w then - double_magnitude w else double_magnitude w))"

text \<open>The C expression \<^verbatim>\<open>valA < valB\<close> on doubles.\<close>

definition double_lt :: "u64 \<Rightarrow> u64 \<Rightarrow> bool" where
  "double_lt a b =
     (\<not> double_is_nan a \<and> \<not> double_is_nan b \<and> dval_less (double_value a) (double_value b))"

record SortContext =
  data_ptr :: size_t
  item_base_offset :: size_t
  item_record_size :: size_t
  ascending :: bool

text \<open>\<^verbatim>\<open>(size_t)index\<close> sign-extends the \<open>int32_t\<close> index.\<close>

definition get_item_ptr :: "SortContext \<Rightarrow> i32 \<Rightarrow> size_t" where
  "get_item_ptr ctx index = data_ptr ctx + item_base_offset ctx + (scast index * item_record_size ctx)"

definition compare_indices_name :: "memory \<Rightarrow> SortContext \<Rightarrow> i32 \<Rightarrow> i32 \<Rightarrow> int" where
  "compare_indices_name mem ctx a b =
     (let idxA = a; idxB = b;
          ptrA = get_item_ptr ctx idxA;
          ptrB = get_item_ptr ctx idxB;
          offA = read_u32 mem (ptrA + 20);
          lenA = read_u32 mem (ptrA + 24);
          offB = read_u32 mem (ptrB + 20);
          lenB = read_u32 mem (ptrB + 24);
          strA = data_ptr ctx + ucast offA;
          strB = data_ptr ctx + ucast offB;
          minLen = (if lenA < lenB then lenA else lenB);
          cmp = memcmp (read_bytes mem strA (unat minLen)) (read_bytes mem strB (unat minLen));
          cmp = (if cmp = 0 then (if lenA < lenB then - 1 else if lenA > lenB then 1 else cmp)
                 else cmp)
      in if ascending ctx then cmp else - cmp)"

definition compare_indices_path :: "memory \<Rightarrow> SortContext \<Rightarrow> i32 \<Rightarrow> i32 \<Rightarrow> int" where
  "compare_indices_path mem ctx a b =
     (let idxA = a; idxB = b;
          ptrA = get_item_ptr ctx idxA;
          ptrB = get_item_ptr ctx idxB;
          offA = read_u32 mem (ptrA + 28);
          lenA = read_u32 mem (ptrA + 32);
          offB = read_u32 mem (ptrB + 28);
          lenB = read_u32 mem (ptrB + 32);
          strA = data_ptr ctx + ucast offA;
          strB = data_ptr ctx + ucast offB;
          minLen = (if lenA < lenB then lenA else lenB);
          cmp = memcmp (read_bytes mem strA (unat minLen)) (read_bytes mem strB (unat minLen));
          cmp = (if cmp = 0 then (if lenA < lenB then - 1 else if lenA > lenB then 1 else cmp)
                 else cmp)
      in if ascending ctx then cmp else - cmp)"

definition compare_indices_size :: "memory \<Rightarrow> SortContext \<Rightarrow> i32 \<Rightarrow> i32 \<Rightarrow> int" where
  "compare_indices_size mem ctx a b =
     (let idxA = a; idxB = b;
          ptrA = get_item_ptr ctx idxA;
          ptrB = get_item_ptr ctx idxB;
          valA = read_u64 mem (ptrA + 0);
          valB = read_u64 mem (ptrB + 0)
      in if sint valA < sint valB then (if ascending ctx then - 1 else 1)
         else if sint valA > sint valB then (if ascending ctx then 1 else - 1)
         else 0)"

definition compare_indices_date :: "memory \<Rightarrow> SortContext \<Rightarrow> i32 \<Rightarrow> i32 \<Rightarrow> int" where
  "compare_indices_date mem ctx a b =
     (let idxA = a; idxB = b;
          ptrA = get_item_ptr ctx idxA;
          ptrB = get_item_ptr ctx idxB;
          valA = read_u64 mem (ptrA + 8);
          valB = read_u64 mem (ptrB + 8)
      in if double_lt valA valB then (if ascending ctx then - 1 else 1)
         else if double_lt valB valA then (if ascending ctx then 1 else - 1)
         else 0)"

text \<open>The enum \<open>SearchSortKey\<close> of CSearch.h is a C integer.\<close>

type_synonym SearchSortKey = "32 word"

definition SORT_KEY_NAME :: SearchSortKey where "SORT_KEY_NAME = 0"
definition SORT_KEY_PATH :: SearchSortKey where "SORT_KEY_PATH = 1"
definition SORT_KEY_SIZE :: SearchSortKey where "SORT_KEY_SIZE = 2"
definition SORT_KEY_DATE :: SearchSortKey where "SORT_KEY_DATE = 3"

text \<open>
  \<open>qsort_r\<close> is a C library function, its code is not part of the repository: it is a
  parameter of the model.  It receives the \<open>count\<close> elements of the array, the context
  and the comparator, and returns the array contents it leaves behind.  The index
  array is a list; the sort works on its first \<open>count\<close> entries.  The parameters of
  \<open>perform_index_sort\<close> that share a name with a field of \<open>SortContext\<close> are primed.
\<close>

type_synonym qsort_fn =
  "i32 list \<Rightarrow> SortContext \<Rightarrow> (SortContext \<Rightarrow> i32 \<Rightarrow> i32 \<Rightarrow> int) \<Rightarrow> i32 list"

definition perform_index_sort ::
  "qsort_fn \<Rightarrow> memory \<Rightarrow> i32 list \<Rightarrow> size_t \<Rightarrow> size_t \<Rightarrow> size_t \<Rightarrow> size_t \<Rightarrow> SearchSortKey \<Rightarrow> bool
     \<Rightarrow> i32 list" where
  "perform_index_sort qsort_r mem indices count' data_ptr' item_base_offset' item_record_size'
       key ascending' =
     (let ctx = \<lparr>data_ptr = data_ptr', item_base_offset = item_base_offset',
                 item_record_size = item_record_size', ascending = ascending'\<rparr>;
          compar =
            (if key = SORT_KEY_NAME then Some (compare_indices_name mem)
             else if key = SORT_KEY_PATH then Some (compare_indices_path mem)
             else if key = SORT_KEY_SIZE then Some (compare_indices_size mem)
             else if key = SORT_KEY_DATE then Some (compare_indices_date mem)
             else None)
      in case compar of
           None \<Rightarrow> indices
         | Some c \<Rightarrow> qsort_r (take (unat count') indices) ctx c @ drop (unat count') indices)"

text \<open>
  The contract of \<open>qsort_r\<close> (C standard, 7.22.5): the comparator's answers must be
  consistent with one another and define a total ordering on the array; the array is
  then sorted in ascending order according to the comparator.  The order of elements
  that compare equal is unspecified.  The function only rearranges the array.
\<close>

definition compar_consistent :: "('a \<Rightarrow> 'a \<Rightarrow> int) \<Rightarrow> 'a set \<Rightarrow> bool" where
  "compar_consistent cmp S =
     ((\<forall>a\<in>S. \<forall>b\<in>S. sgn (cmp a b) = - sgn (cmp b a)) \<and>
      (\<forall>a\<in>S. \<forall>b\<in>S. \<forall>c\<in>S. cmp a b \<le> 0 \<and> cmp b c \<le> 0 \<longrightarrow> cmp a c \<le> 0))"

definition qsort_r_permutes :: "qsort_fn \<Rightarrow> bool" where
  "qsort_r_permutes qsort_r = (\<forall>xs thunk compar. mset (qsort_r xs thunk compar) = mset xs)"

definition qsort_r_sorts :: "qsort_fn \<Rightarrow> bool" where
  "qsort_r_sorts qsort_r =
     (\<forall>xs thunk compar. compar_consistent (compar thunk) (set xs) \<longrightarrow>
        sorted_wrt (\<lambda>a b. compar thunk a b \<le> 0) (qsort_r xs thunk compar))"

definition qsort_r_contract :: "qsort_fn \<Rightarrow> bool" where
  "qsort_r_contract qsort_r = (qsort_r_permutes qsort_r \<and> qsort_r_sorts qsort_r)"

text \<open>
  One implementation of the contract: insertion sort that places an element in front
  of the elements it compares equal to.
\<close>

fun insert_elem :: "('a \<Rightarrow> 'a \<Rightarrow> int) \<Rightarrow> 'a \<Rightarrow> 'a list \<Rightarrow> 'a list" where
  "insert_elem cmp x [] = [x]"
| "insert_elem cmp x (y # ys) = (if cmp x y \<le> 0 then x # y # ys else y # insert_elem cmp x ys)"

definition insertion_qsort_r :: qsort_fn where
  "insertion_qsort_r xs thunk compar = fold (insert_elem (compar thunk)) xs []"

section \<open>Record View: the fields of a record, as the spec's data model names them\<close>

definition record_ptr :: "size_t \<Rightarrow> size_t \<Rightarrow> size_t \<Rightarrow> size_t \<Rightarrow> size_t" where
  "record_ptr dp base stride i = dp + base + i * stride"

definition string_field :: "memory \<Rightarrow> size_t \<Rightarrow> size_t \<Rightarrow> size_t \<Rightarrow> u8 list" where
  "string_field mem dp rec off =
     read_bytes mem (dp + ucast (read_u32 mem (rec + off))) (unat (read_u32 mem (rec + off + 4)))"

definition name_field :: "memory \<Rightarrow> size_t \<Rightarrow> size_t \<Rightarrow> u8 list" where
  "name_field mem dp rec = string_field mem dp rec 20"

definition path_field :: "memory \<Rightarrow> size_t \<Rightarrow> size_t \<Rightarrow> u8 list" where
  "path_field mem dp rec = string_field mem dp rec 28"

definition lower_name_field :: "memory \<Rightarrow> size_t \<Rightarrow> size_t \<Rightarrow> u8 list" where
  "lower_name_field mem dp rec = string_field mem dp rec 36"

definition size_field :: "memory \<Rightarrow> size_t \<Rightarrow> int" where
  "size_field mem rec = sint (read_u64 mem rec)"

definition modified_field :: "memory \<Rightarrow> size_t \<Rightarrow> u64" where
  "modified_field mem rec = read_u64 mem (rec + 8)"

section \<open>Observations on the scan\<close>

text \<open>
  The first \<open>match_count\<close> slots of the output, read as signed 32-bit integers: what
  the caller of \<open>perform_search_scan\<close> sees.
\<close>

definition scan_output :: "i32 \<times> (i32 \<Rightarrow> i32) \<Rightarrow> int list" where
  "scan_output r = map (\<lambda>k. sint (snd r (of_nat k))) [0..<nat (sint (fst r))]"

text \<open>
  The record indices of the range whose lowercased-name field contains the query as a
  contiguous subsequence, in ascending order.
\<close>

definition matching_indices ::
  "memory \<Rightarrow> size_t \<Rightarrow> size_t \<Rightarrow> size_t \<Rightarrow> size_t \<Rightarrow> size_t \<Rightarrow> u8 list \<Rightarrow> nat list" where
  "matching_indices mem dp base stride start_index end_index query =
     filter (\<lambda>i. sublist query (lower_name_field mem dp (record_ptr dp base stride (of_nat i))))
       [unat start_index..<unat end_index]"

text \<open>One iteration of the scan loop, on the pair of match count and output.\<close>

definition scan_step ::
  "memory \<Rightarrow> size_t \<Rightarrow> size_t \<Rightarrow> size_t \<Rightarrow> u8 list \<Rightarrow> size_t \<Rightarrow> i32 \<times> (i32 \<Rightarrow> i32)
     \<Rightarrow> i32 \<times> (i32 \<Rightarrow> i32)" where
  "scan_step mem dp its stride query i st =
     (if sublist query (lower_name_field mem dp (its + i * stride))
      then (fst st + 1, (snd st)(fst st := ucast i)) else st)"

section \<open>The example buffer of the spec\<close>

text \<open>
  Three records of 44 bytes at offset 0, followed by the strings they reference:
  (Beta, /b, beta, 300), (alpha, /a, alpha, 100), (Gamma, /g, gamma, 200).
\<close>

definition le32 :: "nat \<Rightarrow> u8 list" where
  "le32 n = [of_nat n, of_nat (n div 256), of_nat (n div 65536), of_nat (n div 16777216)]"

definition le64 :: "nat \<Rightarrow> u8 list" where
  "le64 n = le32 n @ le32 (n div 4294967296)"

definition bytes_of :: "string \<Rightarrow> u8 list" where
  "bytes_of s = map (\<lambda>c. of_nat (of_char c)) s"

definition example_record :: "nat \<Rightarrow> nat \<Rightarrow> nat \<Rightarrow> nat \<Rightarrow> nat \<Rightarrow> nat \<Rightarrow> nat \<Rightarrow> u8 list" where
  "example_record sz name_off name_len path_off path_len lower_off lower_len =
     le64 sz @ le64 0 @ le32 0 @ le32 name_off @ le32 name_len @ le32 path_off @ le32 path_len
       @ le32 lower_off @ le32 lower_len"

definition example_buffer :: "u8 list" where
  "example_buffer =
     example_record 300 132 4 136 2 138 4 @
     example_record 100 142 5 147 2 149 5 @
     example_record 200 154 5 159 2 161 5 @
     bytes_of ''Beta'' @ bytes_of ''/b'' @ bytes_of ''beta'' @
     bytes_of ''alpha'' @ bytes_of ''/a'' @ bytes_of ''alpha'' @
     bytes_of ''Gamma'' @ bytes_of ''/g'' @ bytes_of ''gamma''"

text \<open>A memory holding the given bytes from address 0 on, and zero bytes elsewhere.\<close>

definition memory_of :: "u8 list \<Rightarrow> memory" where
  "memory_of bs a = (if unat a < length bs then bs ! unat a else 0)"

definition example_mem :: memory where
  "example_mem = memory_of example_buffer"

text \<open>The memory whose every byte is zero.\<close>

definition zero_mem :: memory where
  "zero_mem = (\<lambda>a. 0)"

text \<open>
  A memory with one record far away: all bytes are zero, except the low byte of the
  path length of record \<open>2^31\<close> (records of 44 bytes from address 0 on).
\<close>

definition far_record_mem :: memory where
  "far_record_mem = zero_mem(94489280544 := 1)"

section \<open>Properties of the library models\<close>

lemma take_prefix_iff: "take (length n) h = n \<longleftrightarrow> prefix n h"
proof
  assume "take (length n) h = n"
  then show "prefix n h" using take_is_prefix [of "length n" h] by simp
next
  assume "prefix n h"
  then show "take (length n) h = n" by (auto simp: prefix_def)
qed

lemma memmem_iff: "memmem h n \<noteq> None \<longleftrightarrow> sublist n h"
proof (induction h)
  case Nil
  then show ?case by simp
next
  case (Cons a h)
  then show ?case
    by (simp add: sublist_Cons_right take_prefix_iff)
qed

lemma memmem_None_iff: "memmem h n = None \<longleftrightarrow> \<not> sublist n h"
  using memmem_iff [of h n] by blast

lemma memmem_Some_iff: "(\<exists>y. memmem h n = Some y) \<longleftrightarrow> sublist n h"
  using memmem_iff [of h n] by auto

lemma word_upt_step:
  assumes "(i::64 word) < e"
  shows "map of_nat [unat i..<unat e] = i # (map of_nat [unat (i + 1)..<unat e] :: 64 word list)"
proof -
  from assms have "i + 1 \<noteq> 0"
    by (metis word_not_simps(3) max_word_wrap)
  then have "unat (i + 1) = Suc (unat i)"
    using unatSuc [of i] by (simp add: add.commute)
  moreover from assms have "unat i < unat e"
    by (simp add: word_less_nat_alt)
  ultimately show ?thesis
    by (simp add: upt_conv_Cons)
qed

lemma scan_loop_unfold:
  "i < e \<Longrightarrow> scan_loop mem dp its stride i e query mc rb =
     (if sublist query (lower_name_field mem dp (its + i * stride))
      then scan_loop mem dp its stride (i + 1) e query (mc + 1) (rb(mc := ucast i))
      else scan_loop mem dp its stride (i + 1) e query mc rb)"
  by (subst scan_loop.simps)
    (simp add: Let_def memmem_None_iff memmem_Some_iff lower_name_field_def string_field_def add.assoc)

lemma scan_loop_fold:
  "scan_loop mem dp its stride i e query mc rb =
     fold (scan_step mem dp its stride query) (map of_nat [unat i..<unat e]) (mc, rb)"
proof (induction mem dp its stride i e query mc rb rule: scan_loop.induct)
  case (1 mem dp its stride i e query mc rb)
  show ?case
  proof (cases "i < e")
    case True
    note step = word_upt_step [OF True]
    show ?thesis
    proof (cases "sublist query (lower_name_field mem dp (its + i * stride))")
      case m: True
      then have "memmem (read_bytes mem (dp + ucast (read_u32 mem (its + i * stride + 36)))
            (unat (read_u32 mem (its + i * stride + 40)))) query \<noteq> None"
        by (simp add: memmem_None_iff memmem_Some_iff lower_name_field_def string_field_def add.assoc)
      note ih = "1.IH"(1) [OF True refl refl refl refl refl this]
      have "scan_step mem dp its stride query i (mc, rb) = (mc + 1, rb(mc := ucast i))"
        using m by (simp add: scan_step_def)
      then show ?thesis
        unfolding scan_loop_unfold [OF True] step using m ih by (simp add: fun_upd_def)
    next
      case m: False
      then have "\<not> memmem (read_bytes mem (dp + ucast (read_u32 mem (its + i * stride + 36)))
            (unat (read_u32 mem (its + i * stride + 40)))) query \<noteq> None"
        by (simp add: memmem_None_iff memmem_Some_iff lower_name_field_def string_field_def add.assoc)
      note ih = "1.IH"(2) [OF True refl refl refl refl refl this]
      have "scan_step mem dp its stride query i (mc, rb) = (mc, rb)"
        using m by (simp add: scan_step_def)
      then show ?thesis
        unfolding scan_loop_unfold [OF True] step using m ih by (simp add: fun_upd_def)
    qed
  next
    case False
    then have "unat e \<le> unat i"
      by (simp add: word_less_nat_alt)
    with False show ?thesis
      by (subst scan_loop.simps) simp
  qed
qed

section \<open>The scan loop\<close>

lemma w32_sub_succ:
  "(s::32 word) \<noteq> mc \<Longrightarrow> unat (s - (mc + 1)) = unat (s - mc) - 1"
proof -
  assume "s \<noteq> mc"
  then have "s - mc \<noteq> 0" by simp
  then have "unat (s - mc - 1) = unat (s - mc) - 1"
    by (rule unat_minus_one)
  then show ?thesis by (simp add: diff_diff_eq)
qed

lemma w32_sub_pos: "(s::32 word) \<noteq> mc \<Longrightarrow> 0 < unat (s - mc)"
  by (simp add: unat_gt_0)

lemma w32_sub_self_succ: "unat ((mc::32 word) - (mc + 1)) = 4294967295"
  by (simp add: unsigned_minus_1_eq_mask mask_eq_exp_minus_1)

lemma scan_fold_result:
  fixes js :: "size_t list"
  defines "P \<equiv> \<lambda>mem dp its stride query j. sublist query (lower_name_field mem dp (its + j * stride))"
  assumes "length (filter (P mem dp its stride query) js) \<le> 2 ^ 32"
  shows "fold (scan_step mem dp its stride query) js (mc, rb) =
     (mc + of_nat (length (filter (P mem dp its stride query) js)),
      \<lambda>s. if unat (s - mc) < length (filter (P mem dp its stride query) js)
          then ucast (filter (P mem dp its stride query) js ! unat (s - mc)) else rb s)"
  using assms(2)
proof (induction js arbitrary: mc rb)
  case Nil
  then show ?case by simp
next
  case (Cons j js)
  let ?ms = "filter (P mem dp its stride query) js"
  show ?case
  proof (cases "P mem dp its stride query j")
    case True
    with Cons.prems have len: "length ?ms < 2 ^ 32" by simp
    then have ih: "fold (scan_step mem dp its stride query) js (mc + 1, rb(mc := ucast j)) =
      (mc + 1 + of_nat (length ?ms),
       \<lambda>s. if unat (s - (mc + 1)) < length ?ms then ucast (?ms ! unat (s - (mc + 1)))
            else (rb(mc := ucast j)) s)"
      by (intro Cons.IH) simp
    have fn: "(\<lambda>s. if unat (s - (mc + 1)) < length ?ms then ucast (?ms ! unat (s - (mc + 1)))
            else (rb(mc := ucast j)) s) =
        (\<lambda>s. if unat (s - mc) < Suc (length ?ms) then ucast ((j # ?ms) ! unat (s - mc)) else rb s)"
    proof
      fix s
      show "(if unat (s - (mc + 1)) < length ?ms then ucast (?ms ! unat (s - (mc + 1)))
            else (rb(mc := ucast j)) s) =
        (if unat (s - mc) < Suc (length ?ms) then ucast ((j # ?ms) ! unat (s - mc)) else rb s)"
      proof (cases "s = mc")
        case True
        then show ?thesis using len by (simp add: unsigned_minus_1_eq_mask mask_eq_exp_minus_1)
      next
        case False
        from w32_sub_pos [OF False] obtain d where d: "unat (s - mc) = Suc d"
          by (cases "unat (s - mc)") auto
        with w32_sub_succ [OF False] have "unat (s - (mc + 1)) = d" by simp
        with d False show ?thesis by simp
      qed
    qed
    have filt: "filter (P mem dp its stride query) (j # js) = j # ?ms"
      using True by simp
    have "scan_step mem dp its stride query j (mc, rb) = (mc + 1, rb(mc := ucast j))"
      using True by (simp add: scan_step_def P_def)
    then have "fold (scan_step mem dp its stride query) (j # js) (mc, rb) =
        fold (scan_step mem dp its stride query) js (mc + 1, rb(mc := ucast j))"
      by simp
    also note ih
    also have "(mc + 1 + of_nat (length ?ms),
       \<lambda>s. if unat (s - (mc + 1)) < length ?ms then ucast (?ms ! unat (s - (mc + 1)))
            else (rb(mc := ucast j)) s) =
       (mc + of_nat (length (filter (P mem dp its stride query) (j # js))),
        \<lambda>s. if unat (s - mc) < length (filter (P mem dp its stride query) (j # js))
          then ucast (filter (P mem dp its stride query) (j # js) ! unat (s - mc)) else rb s)"
      unfolding fn filt by (simp add: add.assoc)
    finally show ?thesis .
  next
    case False
    then have filt: "filter (P mem dp its stride query) (j # js) = ?ms"
      by simp
    have "scan_step mem dp its stride query j (mc, rb) = (mc, rb)"
      using False by (simp add: scan_step_def P_def)
    then have "fold (scan_step mem dp its stride query) (j # js) (mc, rb) =
        fold (scan_step mem dp its stride query) js (mc, rb)"
      by simp
    also have "\<dots> = (mc + of_nat (length ?ms),
        \<lambda>s. if unat (s - mc) < length ?ms then ucast (?ms ! unat (s - mc)) else rb s)"
      using Cons.prems unfolding filt by (intro Cons.IH)
    finally show ?thesis unfolding filt .
  qed
qed

lemma sint_of_nat_small: "n < 2 ^ 31 \<Longrightarrow> sint (of_nat n :: 32 word) = int n"
  by (simp add: signed_of_nat signed_take_bit_int_eq_self)

lemma unat_of_nat_small: "k < 2 ^ 32 \<Longrightarrow> unat (of_nat k :: 32 word) = k"
  by (simp add: unat_of_nat)

lemma ucast_of_nat_down: "(ucast (of_nat m :: 64 word) :: 32 word) = of_nat m"
  by transfer (simp add: take_bit_of_nat)

lemma length_matching_indices:
  "length (matching_indices mem dp base stride s e query) \<le> unat e - unat s"
  unfolding matching_indices_def using length_filter_le [of _ "[unat s..<unat e]"] by simp

lemma perform_search_scan_eq:
  assumes "unat e - unat s \<le> 2 ^ 32"
  shows "perform_search_scan mem dp base stride s e query rb =
     (of_nat (length (matching_indices mem dp base stride s e query)),
      \<lambda>k. if unat k < length (matching_indices mem dp base stride s e query)
          then of_nat (matching_indices mem dp base stride s e query ! unat k) else rb k)"
proof -
  let ?mi = "matching_indices mem dp base stride s e query"
  let ?P = "\<lambda>j. sublist query (lower_name_field mem dp (dp + base + j * stride))"
  have ms: "filter ?P (map of_nat [unat s..<unat e]) = map of_nat ?mi"
    by (simp add: filter_map matching_indices_def record_ptr_def comp_def)
  have "length (map of_nat ?mi :: size_t list) \<le> 2 ^ 32"
    using length_matching_indices [of mem dp base stride s e query] assms by simp
  then have len: "length (filter ?P (map of_nat [unat s..<unat e])) \<le> 2 ^ 32"
    unfolding ms .
  have "perform_search_scan mem dp base stride s e query rb =
      fold (scan_step mem dp (dp + base) stride query) (map of_nat [unat s..<unat e]) (0, rb)"
    by (simp add: perform_search_scan_def scan_loop_fold)
  also have "\<dots> = (0 + of_nat (length (filter ?P (map of_nat [unat s..<unat e]))),
      \<lambda>k. if unat (k - 0) < length (filter ?P (map of_nat [unat s..<unat e]))
          then ucast (filter ?P (map of_nat [unat s..<unat e]) ! unat (k - 0)) else rb k)"
    by (rule scan_fold_result [OF len])
  also have "\<dots> = (of_nat (length ?mi),
      \<lambda>k. if unat k < length ?mi then of_nat (?mi ! unat k) else rb k)"
    unfolding ms by (auto simp: fun_eq_iff ucast_of_nat_down)
  finally show ?thesis .
qed

lemma matching_indices_bounds:
  "x \<in> set (matching_indices mem dp base stride s e query) \<Longrightarrow> unat s \<le> x \<and> x < unat e"
  by (auto simp: matching_indices_def)

lemma sorted_matching_indices:
  "sorted_wrt (<) (matching_indices mem dp base stride s e query)"
  unfolding matching_indices_def by (rule sorted_wrt_filter) simp

lemma scan_output_eq:
  assumes "unat e < 2 ^ 31"
  shows "scan_output (perform_search_scan mem dp base stride s e query rb) =
     map int (matching_indices mem dp base stride s e query)"
proof -
  let ?mi = "matching_indices mem dp base stride s e query"
  have n: "length ?mi < 2 ^ 31"
    using length_matching_indices [of mem dp base stride s e query] assms by simp
  have eq: "perform_search_scan mem dp base stride s e query rb =
     (of_nat (length ?mi), \<lambda>k. if unat k < length ?mi then of_nat (?mi ! unat k) else rb k)"
    using assms by (intro perform_search_scan_eq) simp
  have "scan_output (perform_search_scan mem dp base stride s e query rb) =
      map (\<lambda>k. sint (if unat (of_nat k :: 32 word) < length ?mi
                       then of_nat (?mi ! unat (of_nat k :: 32 word)) else rb (of_nat k)))
        [0..<length ?mi]"
    unfolding eq scan_output_def by (simp add: sint_of_nat_small [OF n])
  also have "\<dots> = map (\<lambda>k. int (?mi ! k)) [0..<length ?mi]"
  proof (rule map_cong [OF refl])
    fix k
    assume "k \<in> set [0..<length ?mi]"
    then have k: "k < length ?mi" by simp
    with n have "k < 2 ^ 32" by simp
    then have uk: "unat (of_nat k :: 32 word) = k" by (rule unat_of_nat_small)
    from k have "?mi ! k \<in> set ?mi" by simp
    then have "?mi ! k < unat e" using matching_indices_bounds by blast
    with assms have "?mi ! k < 2 ^ 31" by simp
    then have "sint (of_nat (?mi ! k) :: 32 word) = int (?mi ! k)" by (rule sint_of_nat_small)
    with k uk show "sint (if unat (of_nat k :: 32 word) < length ?mi
                       then of_nat (?mi ! unat (of_nat k :: 32 word)) else rb (of_nat k)) =
        int (?mi ! k)"
      by simp
  qed
  also have "\<dots> = map int ?mi"
    by (simp add: map_nth flip: map_map [unfolded comp_def])
  finally show ?thesis .
qed

section \<open>The example buffer, byte by byte\<close>

lemma example_buffer_bytes:
  "example_buffer =
    [44, 1, 0, 0, 0, 0, 0, 0,  0, 0, 0, 0, 0, 0, 0, 0,  0, 0, 0, 0,
     132, 0, 0, 0,  4, 0, 0, 0,  136, 0, 0, 0,  2, 0, 0, 0,  138, 0, 0, 0,  4, 0, 0, 0,
     100, 0, 0, 0, 0, 0, 0, 0,  0, 0, 0, 0, 0, 0, 0, 0,  0, 0, 0, 0,
     142, 0, 0, 0,  5, 0, 0, 0,  147, 0, 0, 0,  2, 0, 0, 0,  149, 0, 0, 0,  5, 0, 0, 0,
     200, 0, 0, 0, 0, 0, 0, 0,  0, 0, 0, 0, 0, 0, 0, 0,  0, 0, 0, 0,
     154, 0, 0, 0,  5, 0, 0, 0,  159, 0, 0, 0,  2, 0, 0, 0,  161, 0, 0, 0,  5, 0, 0, 0,
     66, 101, 116, 97,  47, 98,  98, 101, 116, 97,
     97, 108, 112, 104, 97,  47, 97,  97, 108, 112, 104, 97,
     71, 97, 109, 109, 97,  47, 103,  103, 97, 109, 109, 97]"
  by (simp add: example_buffer_def example_record_def le64_def le32_def bytes_of_def)

section \<open>Claims about perform_search_scan\<close>

lemma matching_indices_empty_query:
  "matching_indices mem dp base stride s e [] = [unat s..<unat e]"
  by (simp add: matching_indices_def)

text \<open>
  Claim C1, amended.  For every memory, data pointer, base offset, stride, query and
  range \<open>[start_index, end_index)\<close> with \<open>end_index < 2^31\<close>, the first
  \<open>match_count\<close> slots of the output hold exactly the indices of the range whose
  lowercased-name field (offsets 36 and 40 of the record) contains the query as a
  contiguous subsequence; they are strictly ascending and none lies outside the range.
  The bound on \<open>end_index\<close> is there because the output holds \<open>int32_t\<close> values:
  the loop stores \<open>(int32_t)i\<close>.
\<close>

theorem scan_returns_matching_indices:
  assumes "unat end_index < 2 ^ 31"
  shows "scan_output (perform_search_scan mem dp base stride start_index end_index query rb) =
           map int (matching_indices mem dp base stride start_index end_index query)
         \<and> sorted_wrt (<) (scan_output
               (perform_search_scan mem dp base stride start_index end_index query rb))
         \<and> (\<forall>x \<in> set (scan_output
               (perform_search_scan mem dp base stride start_index end_index query rb)).
               uint start_index \<le> x \<and> x < uint end_index)"
proof -
  let ?mi = "matching_indices mem dp base stride start_index end_index query"
  have eq: "scan_output (perform_search_scan mem dp base stride start_index end_index query rb) =
      map int ?mi"
    using assms by (rule scan_output_eq)
  have "sorted_wrt (<) (map int ?mi)"
    using sorted_matching_indices [of mem dp base stride start_index end_index query]
    by (simp add: sorted_wrt_map)
  moreover have "\<forall>x \<in> set (map int ?mi). uint start_index \<le> x \<and> x < uint end_index"
  proof
    fix x
    assume "x \<in> set (map int ?mi)"
    then obtain m where x: "x = int m" and "m \<in> set ?mi" by auto
    then have "unat start_index \<le> m \<and> m < unat end_index"
      using matching_indices_bounds by blast
    then show "uint start_index \<le> x \<and> x < uint end_index"
      unfolding x uint_nat by (simp only: of_nat_le_iff of_nat_less_iff)
  qed
  ultimately show ?thesis unfolding eq by simp
qed

theorem scan_returns_matching_indices_witness:
  "unat (3 :: size_t) < 2 ^ 31
   \<and> scan_output (perform_search_scan example_mem 0 0 44 0 3 (bytes_of ''eta'') (\<lambda>k. 0)) =
       map int (matching_indices example_mem 0 0 44 0 3 (bytes_of ''eta''))"
proof -
  have h: "unat (3 :: size_t) < 2 ^ 31" by simp
  from scan_returns_matching_indices [OF h, of example_mem 0 0 44 0 "bytes_of ''eta''" "\<lambda>k. 0"]
  have "scan_output (perform_search_scan example_mem 0 0 44 0 3 (bytes_of ''eta'') (\<lambda>k. 0)) =
       map int (matching_indices example_mem 0 0 44 0 3 (bytes_of ''eta''))"
    by (rule conjunct1)
  with h show ?thesis by (rule conjI)
qed

text \<open>
  Claim C1 as stated, for every range, fails: for the range \<open>[2^31, 2^31 + 1)\<close> the
  one matching index \<open>2^31\<close> is returned as \<open>-2^31\<close>, which is outside the range.
\<close>

theorem scan_index_beyond_int32:
  "scan_output (perform_search_scan zero_mem 0 0 44 2147483648 2147483649 [] (\<lambda>k. 0))
     = [- 2147483648]
   \<and> matching_indices zero_mem 0 0 44 2147483648 2147483649 [] = [2147483648]"
  by (simp add: perform_search_scan_def scan_loop.simps zero_mem_def read_u32_def
      read_bytes_def scan_output_def matching_indices_def)

text \<open>
  Claim C5, amended.  For every memory and every range \<open>[start_index, end_index)\<close>
  with \<open>start_index \<le> end_index < 2^31\<close>, the scan with the empty query returns the
  match count \<open>end_index - start_index\<close> and the output holds \<open>start_index\<close>,
  \<open>start_index + 1\<close>, ..., \<open>end_index - 1\<close>, whatever the lowercased-name lengths
  are (zero included).
\<close>

theorem scan_empty_query:
  assumes "start_index \<le> end_index" and "unat end_index < 2 ^ 31"
  shows "sint (fst (perform_search_scan mem dp base stride start_index end_index [] rb)) =
           uint end_index - uint start_index
         \<and> scan_output (perform_search_scan mem dp base stride start_index end_index [] rb) =
           map int [unat start_index..<unat end_index]"
proof -
  from assms(1) have le: "unat start_index \<le> unat end_index"
    by (simp add: word_le_nat_alt)
  have "unat end_index - unat start_index \<le> 2 ^ 32"
    using assms(2) by simp
  then have "fst (perform_search_scan mem dp base stride start_index end_index [] rb) =
      of_nat (unat end_index - unat start_index)"
    by (simp add: perform_search_scan_eq matching_indices_empty_query)
  moreover have "unat end_index - unat start_index < 2 ^ 31"
    using assms(2) by simp
  ultimately have "sint (fst (perform_search_scan mem dp base stride start_index end_index [] rb)) =
      int (unat end_index - unat start_index)"
    by (simp add: sint_of_nat_small)
  with le show ?thesis
    using scan_output_eq [OF assms(2), of mem dp base stride start_index "[]" rb]
    unfolding uint_nat by (simp only: matching_indices_empty_query of_nat_diff)
qed

theorem scan_empty_query_witness:
  "(0 :: size_t) \<le> 3 \<and> unat (3 :: size_t) < 2 ^ 31
   \<and> sint (fst (perform_search_scan example_mem 0 0 44 0 3 [] (\<lambda>k. 0))) = 3
   \<and> scan_output (perform_search_scan example_mem 0 0 44 0 3 [] (\<lambda>k. 0)) = [0, 1, 2]"
  using scan_empty_query [of 0 3 example_mem 0 0 44 "\<lambda>k. 0"]
  by (simp add: upt_rec)

text \<open>
  Claim C5 as stated, for every range, fails: for the range \<open>[2^31, 2^31 + 2)\<close> the
  output holds \<open>-2^31\<close> and \<open>-2^31 + 1\<close>, not the indices of the range.
\<close>

theorem scan_empty_query_beyond_int32:
  "scan_output (perform_search_scan zero_mem 0 0 44 2147483648 2147483650 [] (\<lambda>k. 0))
     = [- 2147483648, - 2147483647]
   \<and> map int [unat (2147483648 :: size_t)..<unat (2147483650 :: size_t)]
     = [2147483648, 2147483649]"
  by (simp add: perform_search_scan_def scan_loop.simps zero_mem_def read_u32_def
      read_bytes_def scan_output_def upt_rec)

text \<open>
  Claim C9, amended.  For every call over a range of fewer than \<open>2^31\<close> records, the
  returned match count is between 0 and \<open>end_index - start_index\<close>, and every
  output slot whose content changed has a slot index below the match count: an output
  buffer with as many slots as the range has records is not overflowed.
\<close>

theorem scan_writes_first_slots:
  assumes "unat end_index - unat start_index < 2 ^ 31"
  shows "0 \<le> sint (fst (perform_search_scan mem dp base stride start_index end_index query rb))
     \<and> sint (fst (perform_search_scan mem dp base stride start_index end_index query rb))
         \<le> int (unat end_index - unat start_index)
     \<and> (\<forall>k. snd (perform_search_scan mem dp base stride start_index end_index query rb) k \<noteq> rb k
            \<longrightarrow> unat k
                  < nat (sint (fst (perform_search_scan mem dp base stride start_index end_index query rb))))"
proof -
  let ?mi = "matching_indices mem dp base stride start_index end_index query"
  have n: "length ?mi \<le> unat end_index - unat start_index"
    by (rule length_matching_indices)
  with assms have small: "length ?mi < 2 ^ 31" by simp
  have eq: "perform_search_scan mem dp base stride start_index end_index query rb =
     (of_nat (length ?mi), \<lambda>k. if unat k < length ?mi then of_nat (?mi ! unat k) else rb k)"
    using assms by (intro perform_search_scan_eq) simp
  show ?thesis
    unfolding eq using n by (simp add: sint_of_nat_small [OF small])
qed

theorem scan_writes_first_slots_witness:
  "unat (3 :: size_t) - unat (0 :: size_t) < 2 ^ 31
   \<and> sint (fst (perform_search_scan example_mem 0 0 44 0 3 (bytes_of ''eta'') (\<lambda>k. 7))) \<le> 3
   \<and> snd (perform_search_scan example_mem 0 0 44 0 3 (bytes_of ''eta'') (\<lambda>k. 7)) 3 = 7"
proof -
  have h: "unat (3 :: size_t) - unat (0 :: size_t) < 2 ^ 31" by simp
  let ?r = "perform_search_scan example_mem 0 0 44 0 3 (bytes_of ''eta'') (\<lambda>k. 7)"
  note t = scan_writes_first_slots [OF h, of example_mem 0 0 44 "bytes_of ''eta''" "\<lambda>k. 7"]
  from t have a: "sint (fst ?r) \<le> 3" by simp
  from t have "\<forall>k. snd ?r k \<noteq> 7 \<longrightarrow> unat k < nat (sint (fst ?r))" by blast
  then have b: "snd ?r 3 \<noteq> 7 \<longrightarrow> unat (3 :: i32) < nat (sint (fst ?r))" by (rule spec)
  have "snd ?r 3 = 7"
  proof (rule ccontr)
    assume "snd ?r 3 \<noteq> 7"
    with b have "unat (3 :: i32) < nat (sint (fst ?r))" by simp
    with a show False by simp
  qed
  with h a show ?thesis by simp
qed

text \<open>
  Claim C9 as stated, for every call, fails: over the range \<open>[0, 2^31)\<close> with
  \<open>2^31\<close> matches the \<open>int32_t\<close> match count wraps to \<open>-2^31\<close>, while slot 1
  of the output has been written.
\<close>

theorem scan_count_overflow:
  "sint (fst (perform_search_scan zero_mem 0 0 44 0 2147483648 [] (\<lambda>k. 0))) = - 2147483648
   \<and> snd (perform_search_scan zero_mem 0 0 44 0 2147483648 [] (\<lambda>k. 0)) 1 = 1"
proof -
  have "unat (2147483648 :: size_t) - unat (0 :: size_t) \<le> 2 ^ 32" by simp
  then show ?thesis
    by (simp add: perform_search_scan_eq matching_indices_empty_query)
qed

section \<open>Claims about perform_path_lookup\<close>

lemma length_read_bytes: "length (read_bytes mem p n) = n"
  by (simp add: read_bytes_def)

lemma memcmp_eq_iff: "length xs = length ys \<Longrightarrow> memcmp xs ys = 0 \<longleftrightarrow> xs = ys"
proof (induction xs ys rule: list_induct2)
  case Nil
  then show ?case by simp
next
  case (Cons x xs y ys)
  have "x \<noteq> y \<Longrightarrow> int (unat x) - int (unat y) \<noteq> 0"
    by (simp add: word_uint_eq_iff)
  with Cons show ?case by auto
qed

lemma path_test_iff:
  "(unat len = length t \<and> memcmp (read_bytes mem p (length t)) t = 0) \<longleftrightarrow>
     read_bytes mem p (unat len) = t"
  using memcmp_eq_iff [of "read_bytes mem p (length t)" t] length_read_bytes [of mem p "unat len"]
  by (auto simp: length_read_bytes)

lemma lookup_loop_unfold:
  "i < c \<Longrightarrow> lookup_loop mem dp its stride i c t =
     (if path_field mem dp (its + i * stride) = t then ucast i
      else lookup_loop mem dp its stride (i + 1) c t)"
  using path_test_iff [of "read_u32 mem (its + i * stride + 32)" t mem
      "dp + ucast (read_u32 mem (its + i * stride + 28))"]
  by (subst lookup_loop.simps)
    (auto simp: Let_def path_field_def string_field_def add.assoc)

lemma lookup_loop_find:
  "lookup_loop mem dp its stride i c t =
     (case find (\<lambda>j. path_field mem dp (its + j * stride) = t) (map of_nat [unat i..<unat c]) of
        None \<Rightarrow> - 1 | Some j \<Rightarrow> ucast j)"
proof (induction mem dp its stride i c t rule: lookup_loop.induct)
  case (1 mem dp its stride i c t)
  show ?case
  proof (cases "i < c")
    case True
    note step = word_upt_step [OF True]
    show ?thesis
    proof (cases "path_field mem dp (its + i * stride) = t")
      case m: True
      then show ?thesis
        unfolding lookup_loop_unfold [OF True] step by simp
    next
      case m: False
      have ih: "lookup_loop mem dp its stride (i + 1) c t =
        (case find (\<lambda>j. path_field mem dp (its + j * stride) = t)
               (map of_nat [unat (i + 1)..<unat c]) of
          None \<Rightarrow> - 1 | Some j \<Rightarrow> ucast j)"
      proof (cases "unat (read_u32 mem (its + i * stride + 32)) \<noteq> length t")
        case True
        from "1.IH"(1) [OF \<open>i < c\<close> refl refl refl refl True] show ?thesis .
      next
        case False
        with m have "memcmp (read_bytes mem (dp + ucast (read_u32 mem (its + i * stride + 28)))
            (length t)) t \<noteq> 0"
          using path_test_iff [of "read_u32 mem (its + i * stride + 32)" t mem
            "dp + ucast (read_u32 mem (its + i * stride + 28))"]
          by (simp add: path_field_def string_field_def add.assoc)
        from "1.IH"(2) [OF \<open>i < c\<close> refl refl refl refl False refl this] show ?thesis .
      qed
      from m show ?thesis
        unfolding lookup_loop_unfold [OF True] step using ih by simp
    qed
  next
    case False
    then have "unat c \<le> unat i"
      by (simp add: word_less_nat_alt)
    with False show ?thesis
      by (subst lookup_loop.simps) simp
  qed
qed

lemma find_map_list: "find P (map f xs) = map_option f (find (\<lambda>x. P (f x)) xs)"
  by (induction xs) simp_all

lemma perform_path_lookup_find:
  "perform_path_lookup mem dp base stride c t =
     (case find (\<lambda>i. path_field mem dp (record_ptr dp base stride (of_nat i)) = t) [0..<unat c] of
        None \<Rightarrow> - 1 | Some i \<Rightarrow> of_nat i)"
proof -
  have "find (\<lambda>j. path_field mem dp (dp + base + j * stride) = t) (map of_nat [0..<unat c]) =
      map_option of_nat
        (find (\<lambda>i. path_field mem dp (record_ptr dp base stride (of_nat i)) = t) [0..<unat c])"
    by (simp add: find_map_list record_ptr_def)
  then show ?thesis
    by (simp add: perform_path_lookup_def lookup_loop_find ucast_of_nat_down
        split: option.split)
qed

lemma lookup_no_match:
  assumes "\<forall>i<unat c. path_field mem dp (record_ptr dp base stride (of_nat i)) \<noteq> t"
  shows "perform_path_lookup mem dp base stride c t = - 1"
proof -
  have "find (\<lambda>i. path_field mem dp (record_ptr dp base stride (of_nat i)) = t) [0..<unat c] = None"
    using assms by (simp add: find_None_iff)
  then show ?thesis by (simp add: perform_path_lookup_find)
qed

lemma lookup_first_match:
  assumes "i < unat c"
    and "path_field mem dp (record_ptr dp base stride (of_nat i)) = t"
    and "\<forall>j<i. path_field mem dp (record_ptr dp base stride (of_nat j)) \<noteq> t"
  shows "perform_path_lookup mem dp base stride c t = of_nat i"
proof -
  have "find (\<lambda>i. path_field mem dp (record_ptr dp base stride (of_nat i)) = t) [0..<unat c] = Some i"
    unfolding find_Some_iff using assms by (intro exI [of _ i]) simp
  then show ?thesis by (simp add: perform_path_lookup_find)
qed

subsection \<open>The fields of the example records\<close>

lemma example_mem_read:
  "unat a < 166 \<Longrightarrow> example_mem a = example_buffer ! unat a"
  by (simp add: example_mem_def memory_of_def example_buffer_bytes)

lemmas example_eval = example_mem_def memory_of_def example_buffer_bytes read_u32_def read_u64_def
  read_bytes_def record_ptr_def string_field_def bytes_of_def upt_rec

lemma example_path_fields:
  "path_field example_mem 0 (record_ptr 0 0 44 0) = bytes_of ''/b''"
  "path_field example_mem 0 (record_ptr 0 0 44 1) = bytes_of ''/a''"
  "path_field example_mem 0 (record_ptr 0 0 44 2) = bytes_of ''/g''"
  by (simp_all add: path_field_def example_eval)

lemma example_name_fields:
  "name_field example_mem 0 (record_ptr 0 0 44 0) = bytes_of ''Beta''"
  "name_field example_mem 0 (record_ptr 0 0 44 1) = bytes_of ''alpha''"
  "name_field example_mem 0 (record_ptr 0 0 44 2) = bytes_of ''Gamma''"
  by (simp_all add: name_field_def example_eval)

lemma example_lower_name_fields:
  "lower_name_field example_mem 0 (record_ptr 0 0 44 0) = bytes_of ''beta''"
  "lower_name_field example_mem 0 (record_ptr 0 0 44 1) = bytes_of ''alpha''"
  "lower_name_field example_mem 0 (record_ptr 0 0 44 2) = bytes_of ''gamma''"
  by (simp_all add: lower_name_field_def example_eval)

lemma example_size_fields:
  "size_field example_mem (record_ptr 0 0 44 0) = 300"
  "size_field example_mem (record_ptr 0 0 44 1) = 100"
  "size_field example_mem (record_ptr 0 0 44 2) = 200"
  by (simp_all add: size_field_def example_eval)

lemma less_three_cases: "(i::nat) < 3 \<Longrightarrow> i = 0 \<or> i = 1 \<or> i = 2"
  by arith

text \<open>
  Claim C4, amended.  For every memory holding \<open>count \<le> 2^31\<close> records and every
  target path: \<open>perform_path_lookup\<close> returns \<open>-1\<close> when no record's path field
  equals the target bytes, and otherwise returns the smallest index \<open>i\<close> in
  \<open>[0, count)\<close> whose path field (same length, same bytes) equals the target.  The
  bound on \<open>count\<close> is there because the result is an \<open>int32_t\<close>: the loop returns
  \<open>(int32_t)i\<close>.
\<close>

theorem lookup_returns_first_match:
  assumes "unat count' \<le> 2 ^ 31"
  shows "((\<forall>i<unat count'. path_field mem dp (record_ptr dp base stride (of_nat i)) \<noteq> target_path)
            \<longrightarrow> perform_path_lookup mem dp base stride count' target_path = - 1)
     \<and> (\<forall>i<unat count'.
            path_field mem dp (record_ptr dp base stride (of_nat i)) = target_path
            \<and> (\<forall>j<i. path_field mem dp (record_ptr dp base stride (of_nat j)) \<noteq> target_path)
            \<longrightarrow> sint (perform_path_lookup mem dp base stride count' target_path) = int i)"
proof (intro conjI allI impI)
  assume "\<forall>i<unat count'. path_field mem dp (record_ptr dp base stride (of_nat i)) \<noteq> target_path"
  then show "perform_path_lookup mem dp base stride count' target_path = - 1"
    by (rule lookup_no_match)
next
  fix i
  assume i: "i < unat count'"
    and m: "path_field mem dp (record_ptr dp base stride (of_nat i)) = target_path
       \<and> (\<forall>j<i. path_field mem dp (record_ptr dp base stride (of_nat j)) \<noteq> target_path)"
  then have "perform_path_lookup mem dp base stride count' target_path = of_nat i"
    by (intro lookup_first_match) simp_all
  moreover from i assms have "i < 2 ^ 31" by simp
  ultimately show "sint (perform_path_lookup mem dp base stride count' target_path) = int i"
    by (simp add: sint_of_nat_small)
qed

theorem lookup_returns_first_match_witness:
  "unat (3 :: size_t) \<le> 2 ^ 31
   \<and> sint (perform_path_lookup example_mem 0 0 44 3 (bytes_of ''/a'')) = 1
   \<and> perform_path_lookup example_mem 0 0 44 3 (bytes_of ''/z'') = - 1"
proof -
  have h: "unat (3 :: size_t) \<le> 2 ^ 31" by simp
  have a1: "path_field example_mem 0 (record_ptr 0 0 44 (of_nat 1)) = bytes_of ''/a''"
    using example_path_fields(2) by simp
  have a0: "\<forall>j<1. path_field example_mem 0 (record_ptr 0 0 44 (of_nat j)) \<noteq> bytes_of ''/a''"
    using example_path_fields(1) by (simp add: bytes_of_def)
  have z: "\<forall>i<unat (3 :: size_t).
      path_field example_mem 0 (record_ptr 0 0 44 (of_nat i)) \<noteq> bytes_of ''/z''"
  proof (intro allI impI)
    fix i :: nat
    assume "i < unat (3 :: size_t)"
    then have "i = 0 \<or> i = 1 \<or> i = 2" by (intro less_three_cases) simp
    then show "path_field example_mem 0 (record_ptr 0 0 44 (of_nat i)) \<noteq> bytes_of ''/z''"
      using example_path_fields by (auto simp: bytes_of_def)
  qed
  note t = lookup_returns_first_match [OF h, of example_mem 0 0 44]
  from t [of "bytes_of ''/z''"] z
  have r1: "perform_path_lookup example_mem 0 0 44 3 (bytes_of ''/z'') = - 1" by blast
  from t [of "bytes_of ''/a''"]
  have "\<forall>i<unat (3 :: size_t).
      path_field example_mem 0 (record_ptr 0 0 44 (of_nat i)) = bytes_of ''/a''
      \<and> (\<forall>j<i. path_field example_mem 0 (record_ptr 0 0 44 (of_nat j)) \<noteq> bytes_of ''/a'')
      \<longrightarrow> sint (perform_path_lookup example_mem 0 0 44 3 (bytes_of ''/a'')) = int i"
    by (rule conjunct2)
  then have "1 < unat (3 :: size_t) \<longrightarrow>
      path_field example_mem 0 (record_ptr 0 0 44 (of_nat 1)) = bytes_of ''/a''
      \<and> (\<forall>j<1. path_field example_mem 0 (record_ptr 0 0 44 (of_nat j)) \<noteq> bytes_of ''/a'')
      \<longrightarrow> sint (perform_path_lookup example_mem 0 0 44 3 (bytes_of ''/a'')) = int 1"
    by (rule spec)
  with a0 a1 have r2: "sint (perform_path_lookup example_mem 0 0 44 3 (bytes_of ''/a'')) = 1"
    by simp
  from h r1 r2 show ?thesis by simp
qed

text \<open>
  Claim C4 as stated, for every count, fails: with \<open>2^31 + 1\<close> records of which only
  the last one has the target path, the result is \<open>-2^31\<close>, neither \<open>-1\<close> nor the
  index \<open>2^31\<close> of the matching record.
\<close>

lemma unat_of_nat_64: "n < 2 ^ 64 \<Longrightarrow> unat (of_nat n :: 64 word) = n"
  by (simp add: unat_of_nat)

lemma far_record_addr:
  assumes "j < 2147483648" and "k < 4"
  shows "(of_nat j :: size_t) * 44 + 32 + of_nat k \<noteq> 94489280544"
proof
  assume "(of_nat j :: size_t) * 44 + 32 + of_nat k = 94489280544"
  then have "(of_nat (j * 44 + 32 + k) :: size_t) = 94489280544"
    by simp
  then have "unat (of_nat (j * 44 + 32 + k) :: size_t) = unat (94489280544 :: size_t)"
    by (rule arg_cong)
  moreover have "j * 44 + 32 + k < 2 ^ 64"
    using assms by simp
  then have "unat (of_nat (j * 44 + 32 + k) :: size_t) = j * 44 + 32 + k"
    by (rule unat_of_nat_64)
  ultimately have "j * 44 + 32 + k = unat (94489280544 :: size_t)"
    by (simp only:)
  then have "j * 44 + 32 + k = 94489280544"
    by simp
  with assms show False by arith
qed

lemma far_record_no_match:
  assumes "j < 2147483648"
  shows "path_field far_record_mem 0 (record_ptr 0 0 44 (of_nat j)) = []"
proof -
  have "\<And>k. k < 4 \<Longrightarrow> far_record_mem ((of_nat j :: size_t) * 44 + 32 + of_nat k) = 0"
    using far_record_addr [OF assms] by (simp add: far_record_mem_def zero_mem_def)
  from this [of 0] this [of 1] this [of 2] this [of 3]
  have "read_u32 far_record_mem ((of_nat j :: size_t) * 44 + 32) = 0"
    by (simp add: read_u32_def add.assoc)
  then show ?thesis
    by (simp add: path_field_def string_field_def record_ptr_def read_bytes_def add.assoc)
qed

lemma far_record_match:
  "path_field far_record_mem 0 (record_ptr 0 0 44 2147483648) = [0]"
  by (simp add: path_field_def string_field_def record_ptr_def read_bytes_def read_u32_def
      far_record_mem_def zero_mem_def)

theorem lookup_index_beyond_int32:
  "path_field far_record_mem 0 (record_ptr 0 0 44 2147483648) = [0]
   \<and> sint (perform_path_lookup far_record_mem 0 0 44 2147483649 [0]) = - 2147483648"
proof -
  have "perform_path_lookup far_record_mem 0 0 44 2147483649 [0] = of_nat 2147483648"
  proof (rule lookup_first_match)
    show "2147483648 < unat (2147483649 :: size_t)" by simp
    show "path_field far_record_mem 0 (record_ptr 0 0 44 (of_nat 2147483648)) = [0]"
      using far_record_match by simp
    show "\<forall>j<2147483648. path_field far_record_mem 0 (record_ptr 0 0 44 (of_nat j)) \<noteq> [0]"
      by (simp add: far_record_no_match)
  qed
  then show ?thesis using far_record_match by simp
qed

end
